theory Spec2Isabelle
  imports Main "HOL-Library.Sublist"
begin

section \<open>Python values and string builtins used by the script\<close>

text \<open>
  Attribute values handed around by \<open>generate_interactive_graph.py\<close> are Python objects.
  The script inspects them with \<open>isinstance(value, str)\<close>, \<open>isinstance(label, list)\<close>
  and by truthiness, so the model keeps the three shapes that occur: a string, \<open>None\<close>
  (what \<open>get_label()\<close> returns for a missing label) and a list (the list-wrapped labels
  some parser versions return).
\<close>

datatype pyvalue = PyStr string | PyNone | PyList "pyvalue list"

text \<open>Exceptions the modelled code can raise.\<close>

datatype exn = ValueError | TypeError | AttributeError | IndexError | OverflowError

text \<open>
  \<open>s.strip(chars)\<close>: drop every leading character that occurs in \<open>chars\<close>, then every
  trailing one.
\<close>

definition py_strip :: "string \<Rightarrow> string \<Rightarrow> string" where
  "py_strip chars s =
     rev (dropWhile (\<lambda>c. c \<in> set chars) (rev (dropWhile (\<lambda>c. c \<in> set chars) s)))"

text \<open>\<open>s.startswith(p)\<close> and \<open>s.endswith(p)\<close>.\<close>

definition startswith :: "'a list \<Rightarrow> 'a list \<Rightarrow> bool" where
  "startswith s p = (take (length p) s = p)"

definition endswith :: "'a list \<Rightarrow> 'a list \<Rightarrow> bool" where
  "endswith s p = (length p \<le> length s \<and> drop (length s - length p) s = p)"

text \<open>The slice \<open>s[1:-1]\<close>: without the first and the last character; empty when \<open>len(s) \<le> 2\<close>.\<close>

definition slice_1_m1 :: "string \<Rightarrow> string" where
  "slice_1_m1 s = butlast (tl s)"

text \<open>Python truthiness of the three value shapes.\<close>

fun truthy :: "pyvalue \<Rightarrow> bool" where
  "truthy (PyStr s) = (s \<noteq> [])"
| "truthy PyNone = False"
| "truthy (PyList xs) = (xs \<noteq> [])"

section \<open>\<open>clean_attribute\<close>\<close>

text \<open>
  \<^verbatim>\<open>
  def clean_attribute(value):
      if isinstance(value, str):
          return value.strip('"')
      return value
  \<close>
\<close>

fun clean_attribute :: "pyvalue \<Rightarrow> pyvalue" where
  \<open>clean_attribute (PyStr value) = PyStr (py_strip ''"'' value)\<close>
| \<open>clean_attribute value = value\<close>

section \<open>The node key computed in the cluster-extraction loop\<close>

text \<open>
  Lines 49--52 of \<open>parse_dot_file\<close>:
  \<^verbatim>\<open>
  node_name = node.get_name().strip('"')
  if node_name.startswith('"') and node_name.endswith('"'):
      node_name = node_name[1:-1]
  \<close>
\<close>

definition node_key :: "string \<Rightarrow> string" where
  \<open>node_key name =
     (let node_name = py_strip ''"'' name
      in if startswith node_name ''"'' \<and> endswith node_name ''"''
         then slice_1_m1 node_name else node_name)\<close>

section \<open>Dictionaries\<close>

text \<open>
  A Python \<open>dict\<close> keeps its keys in insertion order: \<open>d[k] = v\<close> overwrites the value of
  an existing key in place and appends a new key at the end. \<open>d.get(k)\<close> is \<open>map_of d k\<close>.
\<close>

fun dict_set :: "('k \<times> 'v) list \<Rightarrow> 'k \<Rightarrow> 'v \<Rightarrow> ('k \<times> 'v) list" where
  "dict_set [] k v = [(k, v)]"
| "dict_set ((k', v') # d) k v = (if k' = k then (k, v) # d else (k', v') # dict_set d k v)"

type_synonym clusters = "(string \<times> string) list"

section \<open>\<open>parse_dot_file\<close>: the cluster map\<close>

text \<open>
  The object pydot hands back: a graph or subgraph with its name, its \<open>label\<close> attribute
  (\<open>get_label()\<close>, \<open>None\<close> when there is none), the names of the nodes declared directly in
  it (\<open>get_nodes()\<close>) and the subgraphs declared directly in it (\<open>get_subgraphs()\<close>).
\<close>

datatype pydot_graph =
  Graph (get_name: string) (get_label: pyvalue) (get_nodes: "string list")
        (get_subgraphs: "pydot_graph list")

text \<open>
  Lines 43--47:
  \<^verbatim>\<open>
  cluster_label = subgraph.get_label()
  if isinstance(cluster_label, list):
      cluster_label = cluster_label[0]
  cluster_label = cluster_label.strip('"') if cluster_label else cluster_name
  \<close>
  Indexing an empty list raises \<open>IndexError\<close>; \<open>.strip\<close> on a truthy value that is not a
  string raises \<open>AttributeError\<close>.
\<close>

definition cluster_label_of :: "string \<Rightarrow> pyvalue \<Rightarrow> exn + string" where
  \<open>cluster_label_of cluster_name label =
     (case (case label of
              PyList [] \<Rightarrow> Inl IndexError
            | PyList (x # _) \<Rightarrow> Inr x
            | _ \<Rightarrow> Inr label) of
        Inl e \<Rightarrow> Inl e
      | Inr cluster_label \<Rightarrow>
          if truthy cluster_label
          then (case cluster_label of
                  PyStr s \<Rightarrow> Inr (py_strip ''"'' s)
                | _ \<Rightarrow> Inl AttributeError)
          else Inr cluster_name)\<close>

text \<open>The inner loop, lines 48--53: every node of the subgraph gets the cluster label.\<close>

definition assign_nodes :: "string list \<Rightarrow> string \<Rightarrow> clusters \<Rightarrow> clusters" where
  "assign_nodes nodes cluster_label clusters =
     fold (\<lambda>node c. dict_set c (node_key node) cluster_label) nodes clusters"

text \<open>
  The outer loop, lines 39--53, over the list \<open>pydot_graph.get_subgraphs()\<close>. An exception
  ends the loop; \<open>parse_dot_file\<close> catches it, prints \<open>Error reading DOT file\<close> and exits
  with status 1.
\<close>

fun scan_subgraphs :: "pydot_graph list \<Rightarrow> clusters \<Rightarrow> exn + clusters" where
  "scan_subgraphs [] clusters = Inr clusters"
| \<open>scan_subgraphs (subgraph # rest) clusters =
     (let cluster_name = py_strip ''"'' (get_name subgraph)
      in if startswith cluster_name ''cluster_''
         then (case cluster_label_of cluster_name (get_label subgraph) of
                 Inl e \<Rightarrow> Inl e
               | Inr cluster_label \<Rightarrow>
                   scan_subgraphs rest (assign_nodes (get_nodes subgraph) cluster_label clusters))
         else scan_subgraphs rest clusters)\<close>

text \<open>
  The cluster half of \<open>parse_dot_file\<close>. Reading the file and building the NetworkX graph
  are calls into pydot and networkx and are not modelled.
\<close>

definition parse_dot_file_clusters :: "pydot_graph \<Rightarrow> exn + clusters" where
  "parse_dot_file_clusters pydot_graph = scan_subgraphs (get_subgraphs pydot_graph) []"

text \<open>
  The cluster map as the specification words it: every subgraph at any nesting depth is
  scanned, and a flagged one gives its label to every node nested in it at any depth.
  This definition follows the specification, not the source; it is only compared with
  \<open>parse_dot_file_clusters\<close>.
\<close>

fun all_subgraphs :: "pydot_graph \<Rightarrow> pydot_graph list" where
  "all_subgraphs (Graph n l ns sgs) = concat (map (\<lambda>g. g # all_subgraphs g) sgs)"

fun all_nodes :: "pydot_graph \<Rightarrow> string list" where
  "all_nodes (Graph n l ns sgs) = ns @ concat (map all_nodes sgs)"

fun spec_scan :: "pydot_graph list \<Rightarrow> clusters \<Rightarrow> exn + clusters" where
  "spec_scan [] clusters = Inr clusters"
| \<open>spec_scan (subgraph # rest) clusters =
     (let cluster_name = py_strip ''"'' (get_name subgraph)
      in if startswith cluster_name ''cluster_''
         then (case cluster_label_of cluster_name (get_label subgraph) of
                 Inl e \<Rightarrow> Inl e
               | Inr cluster_label \<Rightarrow>
                   spec_scan rest (assign_nodes (all_nodes subgraph) cluster_label clusters))
         else spec_scan rest clusters)\<close>

definition spec_cluster_map :: "pydot_graph \<Rightarrow> exn + clusters" where
  "spec_cluster_map pydot_graph = spec_scan (all_subgraphs pydot_graph) []"

section \<open>\<open>generate_unique_colors\<close> and \<open>generate_group_styles\<close>\<close>

text \<open>\<open>"%06x" % n\<close>: lower-case hexadecimal, padded with zeros to six characters.\<close>

definition hex_digit :: "nat \<Rightarrow> char" where
  "hex_digit d = ''0123456789abcdef'' ! d"

fun hex_digits :: "nat \<Rightarrow> string" where
  "hex_digits n = (if n < 16 then [hex_digit n] else hex_digits (n div 16) @ [hex_digit (n mod 16)])"

declare hex_digits.simps [simp del]

definition format_06x :: "nat \<Rightarrow> string" where
  "format_06x n = replicate (6 - length (hex_digits n)) (CHR ''0'') @ hex_digits n"

text \<open>
  \<^verbatim>\<open>
  random.seed(42)
  colors = []
  for _ in range(n):
      color = "#%06x" % random.randint(0, 0xFFFFFF)
      colors.append(color)
  \<close>
  The generator belongs to the Python runtime. Its output after \<open>random.seed(42)\<close> is
  the parameter \<open>draws\<close>: \<open>draws i\<close> is what the \<open>i\<close>-th call of
  \<open>random.randint(0, 0xFFFFFF)\<close> returns. Seeding at the start of every call means every
  call reads the sequence from its beginning.
\<close>

definition generate_unique_colors :: "(nat \<Rightarrow> nat) \<Rightarrow> nat \<Rightarrow> string list" where
  "generate_unique_colors draws n = map (\<lambda>i. ''#'' @ format_06x (draws i)) [0..<n]"

record group_color =
  background :: string
  border :: string

record group_style =
  color :: group_color

text \<open>
  \<^verbatim>\<open>
  unique_clusters = set(clusters.values())
  colors = generate_unique_colors(len(unique_clusters))
  group_styles = {}
  for cluster, color in zip(unique_clusters, colors):
      group_styles[cluster] = {"color": {"background": color, "border": "#2B7CE9"}}
  \<close>
  \<open>zip\<close> iterates over a \<open>set\<close> of strings. The order in which a set yields its elements
  is fixed by the runtime, not by the script (it follows the strings' hash values), so
  it is the parameter \<open>set_iter\<close>: from the values in dictionary order to the order of
  iteration. Any \<open>set_iter\<close> the runtime can use enumerates each distinct value once.
\<close>

definition set_order :: "(string list \<Rightarrow> string list) \<Rightarrow> bool" where
  "set_order set_iter = (\<forall>vs. distinct (set_iter vs) \<and> set (set_iter vs) = set vs)"

definition generate_group_styles ::
  "(nat \<Rightarrow> nat) \<Rightarrow> (string list \<Rightarrow> string list) \<Rightarrow> clusters \<Rightarrow> (string \<times> group_style) list" where
  "generate_group_styles draws set_iter clusters =
     (let unique_clusters = set_iter (map snd clusters);
          colors = generate_unique_colors draws (length (remdups (map snd clusters)))
      in fold (\<lambda>(cluster, c) group_styles.
                 dict_set group_styles cluster
                   \<lparr>color = \<lparr>background = c, border = ''#2B7CE9''\<rparr>\<rparr>)
           (zip unique_clusters colors) [])"

text \<open>
  The first values of \<open>random.randint(0, 0xFFFFFF)\<close> after \<open>random.seed(42)\<close> in
  CPython 3 (they print as \<open>#390062\<close>, \<open>#0cce35\<close>, \<open>#8cd0a4\<close>, \<open>#7d6277\<close>).
\<close>

definition seed42_draws :: "nat list" where
  "seed42_draws = [3735650, 839221, 9228452, 8217207]"

section \<open>\<open>create_interactive_graph\<close>: visual nodes and edges\<close>

text \<open>
  Attribute dictionaries of the NetworkX graph. \<open>from_pydot\<close> copies pydot's attributes,
  which are the strings of the DOT text (a quoted value keeps its quotes).
\<close>

type_synonym attrs = "string \<rightharpoonup> string"

text \<open>\<open>data.get(key, default)\<close> with a string default.\<close>

definition dict_get :: "attrs \<Rightarrow> string \<Rightarrow> string \<Rightarrow> pyvalue" where
  "dict_get data key dflt = PyStr (case data key of Some v \<Rightarrow> v | None \<Rightarrow> dflt)"

text \<open>
  Floating point belongs to the runtime: \<open>'f\<close> is its float type, \<open>float_of_str\<close> is
  \<open>float\<close> on a string (\<open>None\<close> where it raises \<open>ValueError\<close>), \<open>int_of_float\<close> is \<open>int\<close>
  on a float (it raises \<open>ValueError\<close> on a NaN and \<open>OverflowError\<close> on an infinity) and
  \<open>float_one\<close> is the literal \<open>1.0\<close>.
\<close>

record 'f float_ops =
  float_of_str :: "string \<Rightarrow> 'f option"
  int_of_float :: "'f \<Rightarrow> exn + int"
  float_one :: 'f

text \<open>\<open>float(v)\<close>: a string is parsed, \<open>None\<close> and lists raise \<open>TypeError\<close>.\<close>

definition py_float :: "'f float_ops \<Rightarrow> pyvalue \<Rightarrow> exn + 'f" where
  "py_float rt v =
     (case v of
        PyStr s \<Rightarrow> (case float_of_str rt s of Some f \<Rightarrow> Inr f | None \<Rightarrow> Inl ValueError)
      | _ \<Rightarrow> Inl TypeError)"

text \<open>\<open>v.strip(chars)\<close> on a value: only strings have the method.\<close>

definition method_strip :: "string \<Rightarrow> pyvalue \<Rightarrow> exn + string" where
  "method_strip chars v = (case v of PyStr s \<Rightarrow> Inr (py_strip chars s) | _ \<Rightarrow> Inl AttributeError)"

text \<open>
  Lines 142--145:
  \<^verbatim>\<open>
  try:
      size = int(float(fontsize))
  except ValueError:
      size = 14
  \<close>
\<close>

definition font_size :: "'f float_ops \<Rightarrow> pyvalue \<Rightarrow> exn + int" where
  "font_size rt fontsize =
     (case (case py_float rt fontsize of Inl e \<Rightarrow> Inl e | Inr f \<Rightarrow> int_of_float rt f) of
        Inl ValueError \<Rightarrow> Inr 14
      | r \<Rightarrow> r)"

record visual_node =
  vn_id :: string
  vn_label :: string
  vn_title :: pyvalue
  vn_url :: pyvalue
  vn_color :: pyvalue
  vn_shape :: string
  vn_font_face :: pyvalue
  vn_font_size :: int
  vn_group :: string

text \<open>
  The body of the node loop, lines 131--162: the keyword arguments of \<open>net.add_node\<close>.
  An exception other than the caught \<open>ValueError\<close> leaves \<open>create_interactive_graph\<close>.
\<close>

definition build_node :: "'f float_ops \<Rightarrow> clusters \<Rightarrow> string \<Rightarrow> attrs \<Rightarrow> exn + visual_node" where
  "build_node rt clusters node data =
     (let node_id = node;
          label = clean_attribute (dict_get data ''label'' node);
          title = clean_attribute (dict_get data ''tooltip'' '''');
          url = clean_attribute (dict_get data ''URL'' '''');
          fillcolor = clean_attribute (dict_get data ''fillcolor'' ''#97C2FC'');
          shape = (if data ''shape'' = Some ''box'' then ''box'' else ''ellipse'');
          font = clean_attribute (dict_get data ''fontname'' ''Helvetica'');
          fontsize = clean_attribute (dict_get data ''fontsize'' ''14'')
      in case font_size rt fontsize of
           Inl e \<Rightarrow> Inl e
         | Inr sz \<Rightarrow>
             (let node_color = (if ''fillcolor'' \<in> dom data then fillcolor else PyStr ''#97C2FC'');
                  group = (case map_of clusters node of Some g \<Rightarrow> g | None \<Rightarrow> ''default'')
              in case method_strip ''<>'' label of
                   Inl e \<Rightarrow> Inl e
                 | Inr stripped \<Rightarrow>
                     Inr \<lparr>vn_id = node_id, vn_label = stripped, vn_title = title, vn_url = url,
                          vn_color = node_color, vn_shape = shape, vn_font_face = font,
                          vn_font_size = sz, vn_group = group\<rparr>))"




text \<open>
  A runtime for the worked examples: floats with integral values, and \<open>float\<close> tabulated
  on the literals the examples use.
\<close>

definition example_floats :: "int float_ops" where
  "example_floats =
     \<lparr>float_of_str = (\<lambda>s. if s = ''1.0'' then Some 1
                           else if s = ''14'' then Some 14
                           else if s = ''3'' then Some 3
                           else None),
      int_of_float = Inr,
      float_one = 1\<rparr>"

section \<open>\<open>inject_custom_js\<close>\<close>

text \<open>
  \<open>s.rfind(sub)\<close>: the highest index at which \<open>sub\<close> occurs in \<open>s\<close>, or \<open>-1\<close>.
\<close>

fun rfind_from :: "'a list \<Rightarrow> 'a list \<Rightarrow> nat \<Rightarrow> int" where
  "rfind_from s sub 0 = (if startswith s sub then 0 else -1)"
| "rfind_from s sub (Suc i) =
     (if startswith (drop (Suc i) s) sub then int (Suc i) else rfind_from s sub i)"

definition rfind :: "'a list \<Rightarrow> 'a list \<Rightarrow> int" where
  "rfind s sub = rfind_from s sub (length s)"

text \<open>The script block, character for character as in the source.\<close>

definition custom_js :: string where
  \<open>custom_js =
     ''\<newline>'' @
     ''        <script type="text/javascript">\<newline>'' @
     ''            // Function to toggle visibility of connected nodes\<newline>'' @
     ''            function toggleNode(nodeId) {\<newline>'' @
     ''                var connectedNodes = network.getConnectedNodes(nodeId);\<newline>'' @
     ''                var connectedEdges = network.getConnectedEdges(nodeId);\<newline>'' @
     ''                \<newline>'' @
     ''                connectedNodes.forEach(function(n) {\<newline>'' @
     ''                    var node = nodes.get(n);\<newline>'' @
     ''                    if (node.hidden === undefined || node.hidden === false) {\<newline>'' @
     ''                        node.hidden = true;\<newline>'' @
     ''                        nodes.update(node);\<newline>'' @
     ''                    } else {\<newline>'' @
     ''                        node.hidden = false;\<newline>'' @
     ''                        nodes.update(node);\<newline>'' @
     ''                    }\<newline>'' @
     ''                });\<newline>'' @
     ''                \<newline>'' @
     ''                connectedEdges.forEach(function(e) {\<newline>'' @
     ''                    var edge = edges.get(e);\<newline>'' @
     ''                    if (edge.hidden === undefined || edge.hidden === false) {\<newline>'' @
     ''                        edge.hidden = true;\<newline>'' @
     ''                        edges.update(edge);\<newline>'' @
     ''                    } else {\<newline>'' @
     ''                        edge.hidden = false;\<newline>'' @
     ''                        edges.update(edge);\<newline>'' @
     ''                    }\<newline>'' @
     ''                });\<newline>'' @
     ''            }\<newline>'' @
     ''\<newline>'' @
     ''            // Add event listener for node clicks\<newline>'' @
     ''            network.on("click", function(params) {\<newline>'' @
     ''                if (params.nodes.length === 1) {\<newline>'' @
     ''                    var nodeId = params.nodes[0];\<newline>'' @
     ''                    toggleNode(nodeId);\<newline>'' @
     ''                }\<newline>'' @
     ''            });\<newline>'' @
     ''        </script>\<newline>'' @
     ''        ''\<close>

text \<open>
  A Python \<open>str\<close> is a sequence of code points. The string literals of the source are
  ASCII, one code point for each character.
\<close>

type_synonym pystr = "nat list"

definition text_of :: "string \<Rightarrow> pystr" where
  "text_of s = map of_char s"

text \<open>
  The code points a UTF-8 file can hold: up to \<open>0x10FFFF\<close>, the surrogates
  \<open>0xD800\<close>--\<open>0xDFFF\<close> left out.
\<close>

definition scalar_value :: "nat \<Rightarrow> bool" where
  "scalar_value c = (c < 0x110000 \<and> \<not> (0xD800 \<le> c \<and> c \<le> 0xDFFF))"

text \<open>
  The codec \<open>encoding='utf-8'\<close> (strict errors) on byte values. Decoding fails, where
  Python raises \<open>UnicodeDecodeError\<close>, on a byte that cannot start a character, on a
  missing or wrong continuation byte, on an overlong form, on a surrogate and beyond
  \<open>0x10FFFF\<close>.
\<close>

definition continuation :: "nat \<Rightarrow> bool" where
  "continuation b = (0x80 \<le> b \<and> b \<le> 0xBF)"

fun utf8_decode :: "nat list \<Rightarrow> pystr option" where
  "utf8_decode [] = Some []"
| "utf8_decode [b0] = (if b0 < 0x80 then Some [b0] else None)"
| "utf8_decode [b0, b1] =
     (if b0 < 0x80 then map_option ((#) b0) (utf8_decode [b1])
      else if 0xC2 \<le> b0 \<and> b0 \<le> 0xDF \<and> continuation b1
      then Some [(b0 - 0xC0) * 64 + (b1 - 0x80)]
      else None)"
| "utf8_decode [b0, b1, b2] =
     (if b0 < 0x80 then map_option ((#) b0) (utf8_decode [b1, b2])
      else if 0xC2 \<le> b0 \<and> b0 \<le> 0xDF \<and> continuation b1
      then map_option ((#) ((b0 - 0xC0) * 64 + (b1 - 0x80))) (utf8_decode [b2])
      else if 0xE0 \<le> b0 \<and> b0 \<le> 0xEF \<and> continuation b1 \<and> continuation b2
              \<and> (b0 = 0xE0 \<longrightarrow> 0xA0 \<le> b1) \<and> (b0 = 0xED \<longrightarrow> b1 \<le> 0x9F)
      then Some [(b0 - 0xE0) * 4096 + (b1 - 0x80) * 64 + (b2 - 0x80)]
      else None)"
| "utf8_decode (b0 # b1 # b2 # b3 # bs) =
     (if b0 < 0x80 then map_option ((#) b0) (utf8_decode (b1 # b2 # b3 # bs))
      else if 0xC2 \<le> b0 \<and> b0 \<le> 0xDF \<and> continuation b1
      then map_option ((#) ((b0 - 0xC0) * 64 + (b1 - 0x80))) (utf8_decode (b2 # b3 # bs))
      else if 0xE0 \<le> b0 \<and> b0 \<le> 0xEF \<and> continuation b1 \<and> continuation b2
              \<and> (b0 = 0xE0 \<longrightarrow> 0xA0 \<le> b1) \<and> (b0 = 0xED \<longrightarrow> b1 \<le> 0x9F)
      then map_option ((#) ((b0 - 0xE0) * 4096 + (b1 - 0x80) * 64 + (b2 - 0x80)))
             (utf8_decode (b3 # bs))
      else if 0xF0 \<le> b0 \<and> b0 \<le> 0xF4 \<and> continuation b1 \<and> continuation b2 \<and> continuation b3
              \<and> (b0 = 0xF0 \<longrightarrow> 0x90 \<le> b1) \<and> (b0 = 0xF4 \<longrightarrow> b1 \<le> 0x8F)
      then map_option ((#) ((b0 - 0xF0) * 262144 + (b1 - 0x80) * 4096 + (b2 - 0x80) * 64
                            + (b3 - 0x80)))
             (utf8_decode bs)
      else None)"

text \<open>
  Encoding fails, where Python raises \<open>UnicodeEncodeError\<close>, on a surrogate.
\<close>

definition utf8_encode_cp :: "nat \<Rightarrow> nat list option" where
  "utf8_encode_cp c =
     (if c < 0x80 then Some [c]
      else if c < 0x800 then Some [0xC0 + c div 64, 0x80 + c mod 64]
      else if c < 0x10000
      then (if 0xD800 \<le> c \<and> c \<le> 0xDFFF then None
            else Some [0xE0 + c div 4096, 0x80 + c div 64 mod 64, 0x80 + c mod 64])
      else if c < 0x110000
      then Some [0xF0 + c div 262144, 0x80 + c div 4096 mod 64, 0x80 + c div 64 mod 64,
                 0x80 + c mod 64]
      else None)"

fun utf8_encode :: "pystr \<Rightarrow> nat list option" where
  "utf8_encode [] = Some []"
| "utf8_encode (c # cs) =
     (case utf8_encode_cp c of
        None \<Rightarrow> None
      | Some bs \<Rightarrow> map_option ((@) bs) (utf8_encode cs))"

text \<open>
  Text mode with the default \<open>newline=None\<close>. Reading turns \<open>\r\n\<close> and a lone \<open>\r\<close>
  into \<open>\n\<close>; writing turns \<open>\n\<close> into \<open>os.linesep\<close>, which is \<open>\n\<close> on POSIX and \<open>\r\n\<close>
  on Windows.
\<close>

fun universal_newlines :: "pystr \<Rightarrow> pystr" where
  "universal_newlines [] = []"
| "universal_newlines [c] = [if c = 13 then 10 else c]"
| "universal_newlines (c # d # cs) =
     (if c = 13 \<and> d = 10 then 10 # universal_newlines cs
      else (if c = 13 then 10 else c) # universal_newlines (d # cs))"

datatype platform = Posix | Windows

fun os_linesep :: "platform \<Rightarrow> pystr" where
  "os_linesep Posix = [10]"
| "os_linesep Windows = [13, 10]"

definition write_newlines :: "pystr \<Rightarrow> pystr \<Rightarrow> pystr" where
  "write_newlines linesep t = concat (map (\<lambda>c. if c = 10 then linesep else [c]) t)"

text \<open>
  The files the injector can see: a path holds a file or does not exist; a file has its
  bytes and says whether the process may open it for reading and for writing.
\<close>

record file_entry =
  file_readable :: bool
  file_writable :: bool
  file_bytes :: string

type_synonym files = "string \<rightharpoonup> file_entry"

text \<open>
  Lines 252--253, \<open>with open(output_html, 'r', encoding='utf-8') as file:
  html_content = file.read()\<close>. \<open>None\<close> stands for the exception raised when the file
  cannot be opened or its bytes are not UTF-8.
\<close>

definition read_text :: "file_entry \<Rightarrow> pystr option" where
  "read_text f =
     (if file_readable f
      then map_option universal_newlines (utf8_decode (map of_char (file_bytes f)))
      else None)"

text \<open>
  Lines 306--307, \<open>with open(output_html, 'w', encoding='utf-8') as file:
  file.write(html_content)\<close>: the file after the statement, and whether the statement
  ended without an exception. Opening a file that is not writable raises and leaves it
  as it is; opening for writing empties the file, so an encoding error raised by
  \<open>write\<close> leaves it empty.
\<close>

definition write_text :: "platform \<Rightarrow> file_entry \<Rightarrow> pystr \<Rightarrow> file_entry \<times> bool" where
  "write_text p f html_content =
     (if \<not> file_writable f then (f, False)
      else case utf8_encode (write_newlines (os_linesep p) html_content) of
             None \<Rightarrow> (f\<lparr>file_bytes := []\<rparr>, False)
           | Some bs \<Rightarrow> (f\<lparr>file_bytes := map char_of bs\<rparr>, True))"

text \<open>
  What the injector prints tells its three ways out apart: \<open>TagNotFound\<close> is the message
  \<open>Error: </body> tag not found in the HTML file.\<close>, \<open>Injected\<close> the message of success,
  \<open>InjectFailed\<close> the message \<open>Error injecting custom JavaScript\<close> of the
  \<open>except Exception\<close> clause around the whole body.
\<close>

datatype inject_report = TagNotFound | Injected | InjectFailed

definition inject_custom_js :: "platform \<Rightarrow> files \<Rightarrow> string \<Rightarrow> files \<times> inject_report" where
  "inject_custom_js p fs output_html =
     (case fs output_html of
        None \<Rightarrow> (fs, InjectFailed)
      | Some f \<Rightarrow>
          (case read_text f of
             None \<Rightarrow> (fs, InjectFailed)
           | Some html_content \<Rightarrow>
               (let insert_position = rfind html_content (text_of ''</body>'')
                in if insert_position = -1 then (fs, TagNotFound)
                   else (case write_text p f
                                 (take (nat insert_position) html_content @ text_of custom_js @
                                  drop (nat insert_position) html_content) of
                           (f', True) \<Rightarrow> (fs(output_html \<mapsto> f'), Injected)
                         | (f', False) \<Rightarrow> (fs(output_html \<mapsto> f'), InjectFailed)))))"

section \<open>Facts about \<open>strip\<close>\<close>

lemma py_strip_Nil [simp]: "py_strip chars [] = []"
  by (simp add: py_strip_def)

lemma dropWhile_snoc_keep:
  "\<not> P x \<Longrightarrow> dropWhile P (ys @ [x]) = dropWhile P ys @ [x]"
  by (induction ys) auto

lemma strip_end_Cons:
  "\<not> P x \<Longrightarrow> rev (dropWhile P (rev (x # ys))) = x # rev (dropWhile P (rev ys))"
  by (simp add: dropWhile_snoc_keep)

lemma py_strip_head_notin:
  assumes "py_strip chars s = x # xs"
  shows "x \<notin> set chars"
proof -
  let ?P = "\<lambda>c. c \<in> set chars"
  let ?r = "dropWhile ?P s"
  from assms have "?r \<noteq> []"
    unfolding py_strip_def by (cases "?r") simp_all
  then obtain y ys where r: "?r = y # ys" by (cases "?r") auto
  with hd_dropWhile [of ?P s] have "\<not> ?P y" by simp
  then have "py_strip chars s = y # rev (dropWhile ?P (rev ys))"
    unfolding py_strip_def r by (rule strip_end_Cons)
  with assms \<open>\<not> ?P y\<close> show ?thesis by simp
qed

lemma py_strip_last_notin:
  assumes "py_strip chars s \<noteq> []"
  shows "last (py_strip chars s) \<notin> set chars"
proof -
  let ?P = "\<lambda>c. c \<in> set chars"
  let ?z = "dropWhile ?P (rev (dropWhile ?P s))"
  from assms have "?z \<noteq> []" by (simp add: py_strip_def)
  then have "\<not> ?P (hd ?z)" by (rule hd_dropWhile)
  moreover have "last (py_strip chars s) = hd ?z"
    using \<open>?z \<noteq> []\<close> by (simp add: py_strip_def last_rev)
  ultimately show ?thesis by simp
qed

lemma py_strip_unchanged:
  assumes "s = [] \<or> (hd s \<notin> set chars \<and> last s \<notin> set chars)"
  shows "py_strip chars s = s"
proof (cases "s = []")
  case True
  then show ?thesis by simp
next
  case False
  let ?P = "\<lambda>c. c \<in> set chars"
  from False assms have h: "\<not> ?P (hd s)" and l: "\<not> ?P (last s)" by auto
  from h have "dropWhile ?P s = s" by (simp add: dropWhile_eq_self_iff)
  moreover from l False have "dropWhile ?P (rev s) = rev s"
    by (simp add: dropWhile_eq_self_iff hd_rev)
  ultimately show ?thesis by (simp add: py_strip_def)
qed

lemma py_strip_idem: "py_strip chars (py_strip chars s) = py_strip chars s"
proof (cases "py_strip chars s")
  case Nil
  then show ?thesis by simp
next
  case (Cons x xs)
  then have "hd (py_strip chars s) \<notin> set chars"
    using py_strip_head_notin [OF Cons] by simp
  moreover have "last (py_strip chars s) \<notin> set chars"
    using Cons by (intro py_strip_last_notin) simp
  ultimately show ?thesis by (intro py_strip_unchanged) simp
qed

lemma py_strip_decomp:
  "\<exists>a b. s = a @ py_strip chars s @ b \<and> set a \<subseteq> set chars \<and> set b \<subseteq> set chars"
proof -
  let ?P = "\<lambda>c. c \<in> set chars"
  let ?r = "dropWhile ?P s"
  let ?a = "takeWhile ?P s"
  let ?b = "rev (takeWhile ?P (rev ?r))"
  have "rev (dropWhile ?P (rev ?r)) @ ?b = ?r"
    by (simp only: rev_append [symmetric] takeWhile_dropWhile_id rev_rev_ident)
  then have "?r = py_strip chars s @ ?b"
    by (simp only: py_strip_def)
  then have "?a @ ?r = ?a @ py_strip chars s @ ?b" by (rule arg_cong)
  then have "s = ?a @ py_strip chars s @ ?b" by simp
  moreover have "set ?a \<subseteq> set chars" by (auto dest: set_takeWhileD)
  moreover have "set ?b \<subseteq> set chars" by (auto dest: set_takeWhileD)
  ultimately show ?thesis by blast
qed

lemma startswith_quote_iff: \<open>startswith s ''"'' \<longleftrightarrow> (s \<noteq> [] \<and> hd s = CHR 0x22)\<close>
  by (cases s) (auto simp: startswith_def)

lemma endswith_quote_iff: \<open>endswith s ''"'' \<longleftrightarrow> (s \<noteq> [] \<and> last s = CHR 0x22)\<close>
proof (cases s rule: rev_cases)
  case Nil
  then show ?thesis by (simp add: endswith_def)
next
  case (snoc ys y)
  then show ?thesis by (auto simp: endswith_def)
qed

lemma strip_quote_not_startswith: \<open>\<not> startswith (py_strip ''"'' s) ''"''\<close>
proof (cases \<open>py_strip ''"'' s\<close>)
  case Nil
  then show ?thesis by (simp add: startswith_def)
next
  case (Cons x xs)
  from py_strip_head_notin [OF Cons] have "x \<noteq> CHR 0x22" by simp
  with Cons show ?thesis by (simp add: startswith_quote_iff)
qed

lemma strip_quote_not_endswith: \<open>\<not> endswith (py_strip ''"'' s) ''"''\<close>
proof (cases \<open>py_strip ''"'' s = []\<close>)
  case True
  then show ?thesis by (simp add: endswith_def)
next
  case False
  from py_strip_last_notin [OF False] have \<open>last (py_strip ''"'' s) \<noteq> CHR 0x22\<close> by simp
  then show ?thesis by (simp add: endswith_quote_iff)
qed

section \<open>Claims about \<open>clean_attribute\<close> and the node key\<close>

text \<open>
  C9. \<open>clean_attribute\<close> is idempotent: cleaning a cleaned value changes nothing, for
  strings and for every other value.
\<close>

theorem clean_attribute_idempotent:
  "clean_attribute (clean_attribute v) = clean_attribute v"
  by (cases v) (simp_all add: py_strip_idem)

text \<open>
  C10. In the cluster-extraction loop the node name left by \<open>strip('"')\<close> never both starts
  and ends with a quote character, so the branch that re-slices it with \<open>[1:-1]\<close> is never
  taken: the key stored in the cluster map is the stripped name.
\<close>

theorem node_key_reslice_unreachable:
  \<open>\<not> (startswith (py_strip ''"'' name) ''"'' \<and> endswith (py_strip ''"'' name) ''"'')
   \<and> node_key name = py_strip ''"'' name\<close>
  by (simp add: node_key_def strip_quote_not_startswith)

lemma py_strip_wrapped:
  assumes a: "set a \<subseteq> set chars" and b: "set b \<subseteq> set chars"
  shows "py_strip chars (a @ t @ b) = py_strip chars t"
proof -
  let ?P = "\<lambda>c. c \<in> set chars"
  have "dropWhile ?P (rev b @ rev xs) = dropWhile ?P (rev xs)" for xs
    by (rule dropWhile_append2) (use b in auto)
  then have rstrip: "rev (dropWhile ?P (rev (xs @ b))) = rev (dropWhile ?P (rev xs))" for xs
    by simp
  have lead: "dropWhile ?P (a @ t @ b) = dropWhile ?P (t @ b)"
    by (rule dropWhile_append2) (use a in auto)
  show ?thesis
  proof (cases "\<forall>x\<in>set t. ?P x")
    case True
    then have e1: "dropWhile ?P (t @ b) = []" using b by auto
    from True have e2: "dropWhile ?P t = []" by simp
    show ?thesis unfolding py_strip_def lead e1 e2 by simp
  next
    case False
    then obtain x where "x \<in> set t" "\<not> ?P x" by blast
    then have "dropWhile ?P (t @ b) = dropWhile ?P t @ b"
      by (rule dropWhile_append1)
    then show ?thesis by (simp only: py_strip_def lead rstrip)
  qed
qed

lemma py_strip_quote_unchanged:
  assumes \<open>\<not> startswith s ''"''\<close> and \<open>\<not> endswith s ''"''\<close>
  shows \<open>py_strip ''"'' s = s\<close>
  using assms by (intro py_strip_unchanged) (auto simp: startswith_quote_iff endswith_quote_iff)

text \<open>
  C1, as the claim states it, fails: \<open>strip('"')\<close> removes every leading and every trailing
  quote, so a doubly quoted string loses both pairs, and a string with a quote at one end
  only, which is not wrapped, is changed as well.
\<close>

theorem clean_attribute_double_quote_counterexample:
  \<open>clean_attribute (PyStr ''""Alpha""'') = PyStr ''Alpha''
   \<and> clean_attribute (PyStr ''""Alpha""'') \<noteq> PyStr ''"Alpha"''
   \<and> clean_attribute (PyStr ''"Beta'') \<noteq> PyStr ''"Beta''\<close>
  by (simp add: py_strip_def)

text \<open>
  C1, amended. For a string, \<open>clean_attribute\<close> removes all the quote characters at its
  start and all those at its end: the value is some quotes, then the result, then some
  quotes, and the result neither starts nor ends with a quote. So a string wrapped in
  exactly one pair of quotes loses exactly that pair, a string with no quote at either end
  is returned unchanged, and a value that is not a string is returned unchanged.
\<close>

theorem clean_attribute_strips_all_surrounding_quotes:
  \<open>(\<exists>n m t. s = replicate n (CHR 0x22) @ t @ replicate m (CHR 0x22)
            \<and> \<not> startswith t ''"'' \<and> \<not> endswith t ''"''
            \<and> clean_attribute (PyStr s) = PyStr t)
   \<and> (\<not> startswith t ''"'' \<and> \<not> endswith t ''"''
        \<longrightarrow> clean_attribute (PyStr (''"'' @ t @ ''"'')) = PyStr t)
   \<and> (\<not> startswith s ''"'' \<and> \<not> endswith s ''"'' \<longrightarrow> clean_attribute (PyStr s) = PyStr s)
   \<and> clean_attribute PyNone = PyNone
   \<and> clean_attribute (PyList xs) = PyList xs\<close>
proof -
  obtain a b where ab: \<open>s = a @ py_strip ''"'' s @ b\<close>
      \<open>set a \<subseteq> set ''"''\<close> \<open>set b \<subseteq> set ''"''\<close>
    using py_strip_decomp by blast
  from ab(2) have "replicate (length a) (CHR 0x22) = a"
    by (intro replicate_length_same) auto
  moreover from ab(3) have "replicate (length b) (CHR 0x22) = b"
    by (intro replicate_length_same) auto
  ultimately have \<open>s = replicate (length a) (CHR 0x22) @ py_strip ''"'' s
                       @ replicate (length b) (CHR 0x22)\<close>
    using ab(1) by simp
  then have first: \<open>\<exists>n m t. s = replicate n (CHR 0x22) @ t @ replicate m (CHR 0x22)
            \<and> \<not> startswith t ''"'' \<and> \<not> endswith t ''"''
            \<and> clean_attribute (PyStr s) = PyStr t\<close>
    using strip_quote_not_startswith [of s] strip_quote_not_endswith [of s]
    by (intro exI [of _ "length a"] exI [of _ "length b"] exI [of _ \<open>py_strip ''"'' s\<close>]) simp
  have second: \<open>clean_attribute (PyStr (''"'' @ t @ ''"'')) = PyStr t\<close>
    if \<open>\<not> startswith t ''"''\<close> \<open>\<not> endswith t ''"''\<close>
  proof -
    have \<open>py_strip ''"'' (''"'' @ t @ ''"'') = py_strip ''"'' t\<close>
      by (rule py_strip_wrapped) simp_all
    with that show ?thesis by (simp add: py_strip_quote_unchanged)
  qed
  have third: \<open>clean_attribute (PyStr s) = PyStr s\<close>
    if \<open>\<not> startswith s ''"''\<close> \<open>\<not> endswith s ''"''\<close>
    using that by (simp add: py_strip_quote_unchanged)
  from first second third show ?thesis by simp
qed

theorem clean_attribute_strips_all_surrounding_quotes_witness:
  \<open>\<not> startswith ''Alpha'' ''"'' \<and> \<not> endswith ''Alpha'' ''"''
   \<and> clean_attribute (PyStr ''"Alpha"'') = PyStr ''Alpha''
   \<and> \<not> startswith ''Beta'' ''"'' \<and> \<not> endswith ''Beta'' ''"''
   \<and> clean_attribute (PyStr ''Beta'') = PyStr ''Beta''\<close>
  using clean_attribute_strips_all_surrounding_quotes [of \<open>''Beta''\<close> \<open>''Alpha''\<close>]
  by (simp add: startswith_def endswith_def)

section \<open>Claims about the scene builder\<close>










text \<open>
  C4. Every attribute the builder reads goes through \<open>clean_attribute\<close> except \<open>shape\<close>,
  which line 137 compares raw: a node written with \<open>shape="box"\<close>, whose attribute value
  keeps its quotes, is drawn as an ellipse, although the cleaned value is \<open>box\<close>.
\<close>

theorem quoted_box_shape_is_not_cleaned:
  \<open>map_sum id vn_shape (build_node example_floats [] ''n'' [''shape'' \<mapsto> ''"box"''])
     = Inr ''ellipse''
   \<and> clean_attribute (PyStr ''"box"'') = PyStr ''box''
   \<and> map_sum id vn_shape (build_node example_floats [] ''n'' [''shape'' \<mapsto> ''box''])
     = Inr ''box''\<close>
  by (simp add: build_node_def dict_get_def font_size_def py_float_def method_strip_def
      example_floats_def py_strip_def)

section \<open>Claims about the injector\<close>

lemma startswith_drop_iff:
  "startswith (drop i s) sub \<and> i \<le> length s \<longleftrightarrow> (\<exists>pre post. s = pre @ sub @ post \<and> length pre = i)"
proof
  assume h: "startswith (drop i s) sub \<and> i \<le> length s"
  then have "take (length sub) (drop i s) = sub" by (simp add: startswith_def)
  then have "drop i s = sub @ drop (length sub) (drop i s)"
    by (metis append_take_drop_id)
  then have "s = take i s @ sub @ drop (length sub) (drop i s)"
    by (metis append_take_drop_id)
  moreover from h have "length (take i s) = i" by simp
  ultimately show "\<exists>pre post. s = pre @ sub @ post \<and> length pre = i" by blast
next
  assume "\<exists>pre post. s = pre @ sub @ post \<and> length pre = i"
  then obtain pre post where s: "s = pre @ sub @ post" and i: "length pre = i" by blast
  then show "startswith (drop i s) sub \<and> i \<le> length s"
    by (auto simp: startswith_def)
qed

lemma rfind_from_none:
  "rfind_from s sub n = -1 \<longleftrightarrow> (\<forall>i\<le>n. \<not> startswith (drop i s) sub)"
proof (induction n)
  case 0
  show ?case by simp
next
  case (Suc n)
  show ?case
  proof (cases "startswith (drop (Suc n) s) sub")
    case True
    then show ?thesis by auto
  next
    case False
    then have "rfind_from s sub (Suc n) = -1 \<longleftrightarrow> (\<forall>i\<le>n. \<not> startswith (drop i s) sub)"
      using Suc.IH by simp
    also have "\<dots> \<longleftrightarrow> (\<forall>i\<le>Suc n. \<not> startswith (drop i s) sub)"
      using False by (auto simp: le_Suc_eq)
    finally show ?thesis .
  qed
qed

lemma rfind_from_last:
  assumes "rfind_from s sub n \<noteq> -1"
  shows "\<exists>k\<le>n. rfind_from s sub n = int k \<and> startswith (drop k s) sub
           \<and> (\<forall>j. k < j \<and> j \<le> n \<longrightarrow> \<not> startswith (drop j s) sub)"
  using assms
proof (induction n)
  case 0
  then show ?case by (auto split: if_splits)
next
  case (Suc n)
  show ?case
  proof (cases "startswith (drop (Suc n) s) sub")
    case True
    then show ?thesis by (intro exI [of _ "Suc n"]) auto
  next
    case False
    with Suc.prems have "rfind_from s sub n \<noteq> -1" by simp
    from Suc.IH [OF this] obtain k where k: "k \<le> n" "rfind_from s sub n = int k"
        "startswith (drop k s) sub" "\<forall>j. k < j \<and> j \<le> n \<longrightarrow> \<not> startswith (drop j s) sub"
      by blast
    have "\<forall>j. k < j \<and> j \<le> Suc n \<longrightarrow> \<not> startswith (drop j s) sub"
      using k(4) False by (auto simp: le_Suc_eq)
    with k False show ?thesis by (intro exI [of _ k]) simp
  qed
qed

lemma rfind_none_iff: "rfind s sub = -1 \<longleftrightarrow> \<not> sublist sub s"
proof -
  have "(\<forall>i\<le>length s. \<not> startswith (drop i s) sub) \<longleftrightarrow> \<not> sublist sub s"
  proof
    assume none: "\<forall>i\<le>length s. \<not> startswith (drop i s) sub"
    show "\<not> sublist sub s"
    proof
      assume "sublist sub s"
      then obtain pre post where "s = pre @ sub @ post" by (auto simp: sublist_def)
      then have "startswith (drop (length pre) s) sub \<and> length pre \<le> length s"
        using startswith_drop_iff [of "length pre" s sub] by blast
      with none show False by blast
    qed
  next
    assume no: "\<not> sublist sub s"
    show "\<forall>i\<le>length s. \<not> startswith (drop i s) sub"
    proof (intro allI impI notI)
      fix i
      assume "i \<le> length s" "startswith (drop i s) sub"
      then have "\<exists>pre post. s = pre @ sub @ post \<and> length pre = i"
        using startswith_drop_iff [of i s sub] by blast
      with no show False by (auto simp: sublist_def)
    qed
  qed
  then show ?thesis by (simp add: rfind_def rfind_from_none)
qed

lemma rfind_last_occurrence:
  assumes "sublist sub s"
  shows "\<exists>pre post. s = pre @ sub @ post \<and> rfind s sub = int (length pre)
           \<and> (\<forall>pre' post'. s = pre' @ sub @ post' \<longrightarrow> length pre' \<le> length pre)"
proof -
  from assms have "rfind_from s sub (length s) \<noteq> -1"
    using rfind_none_iff [of s sub] by (simp add: rfind_def)
  from rfind_from_last [OF this] obtain k where k: "k \<le> length s"
      "rfind_from s sub (length s) = int k" "startswith (drop k s) sub"
      "\<forall>j. k < j \<and> j \<le> length s \<longrightarrow> \<not> startswith (drop j s) sub"
    by blast
  from k(1,3) obtain pre post where s: "s = pre @ sub @ post" and len: "length pre = k"
    using startswith_drop_iff [of k s sub] by blast
  have "length pre' \<le> length pre" if "s = pre' @ sub @ post'" for pre' post'
  proof (rule ccontr)
    assume "\<not> length pre' \<le> length pre"
    then have "k < length pre'" using len by simp
    moreover have "startswith (drop (length pre') s) sub \<and> length pre' \<le> length s"
      using that startswith_drop_iff [of "length pre'" s sub] by blast
    ultimately show False using k(4) by blast
  qed
  with s len k(2) show ?thesis by (auto simp: rfind_def)
qed

lemma scalar_one_byte: "b0 < 0x80 \<Longrightarrow> scalar_value b0"
  by (simp add: scalar_value_def)

lemma scalar_two_bytes:
  assumes "b0 \<le> 0xDF" "continuation b1"
  shows "scalar_value ((b0 - 0xC0) * 64 + (b1 - 0x80))"
proof -
  from assms have "b0 - 0xC0 \<le> 31" and "b1 - 0x80 \<le> 63"
    by (auto simp: continuation_def)
  then have "(b0 - 0xC0) * 64 + (b1 - 0x80) \<le> 2047" by linarith
  then show ?thesis by (simp add: scalar_value_def)
qed

lemma scalar_three_bytes:
  assumes "0xE0 \<le> b0" "b0 \<le> 0xEF" "continuation b1" "continuation b2"
    and "b0 = 0xED \<longrightarrow> b1 \<le> 0x9F"
  shows "scalar_value ((b0 - 0xE0) * 4096 + (b1 - 0x80) * 64 + (b2 - 0x80))"
proof -
  define k where "k = b0 - 0xE0"
  define i where "i = b1 - 0x80"
  define j where "j = b2 - 0x80"
  from assms have k: "k \<le> 15" and i: "i \<le> 63" and j: "j \<le> 63"
    by (auto simp: k_def i_def j_def continuation_def)
  from assms have ed: "k = 13 \<longrightarrow> i \<le> 31"
    by (auto simp: k_def i_def continuation_def)
  consider "k \<le> 12" | "k = 13" | "14 \<le> k" by linarith
  then have "scalar_value (k * 4096 + i * 64 + j)"
  proof cases
    case 1
    with i j have "k * 4096 + i * 64 + j < 0xD800" by simp
    then show ?thesis by (simp add: scalar_value_def)
  next
    case 2
    with ed i j have "k * 4096 + i * 64 + j < 0xD800" by simp
    then show ?thesis by (simp add: scalar_value_def)
  next
    case 3
    with k i j have "0xDFFF < k * 4096 + i * 64 + j" and "k * 4096 + i * 64 + j < 0x110000"
      by simp_all
    then show ?thesis by (simp add: scalar_value_def)
  qed
  then show ?thesis by (simp only: k_def i_def j_def)
qed

lemma scalar_four_bytes:
  assumes "0xF0 \<le> b0" "b0 \<le> 0xF4" "continuation b1" "continuation b2" "continuation b3"
    and "b0 = 0xF0 \<longrightarrow> 0x90 \<le> b1" and "b0 = 0xF4 \<longrightarrow> b1 \<le> 0x8F"
  shows "scalar_value ((b0 - 0xF0) * 262144 + (b1 - 0x80) * 4096 + (b2 - 0x80) * 64
                       + (b3 - 0x80))"
proof -
  define k where "k = b0 - 0xF0"
  define i where "i = b1 - 0x80"
  define j where "j = b2 - 0x80"
  define l where "l = b3 - 0x80"
  from assms have k: "k \<le> 4" and i: "i \<le> 63" and j: "j \<le> 63" and l: "l \<le> 63"
    by (auto simp: k_def i_def j_def l_def continuation_def)
  from assms have f0: "k = 0 \<longrightarrow> 16 \<le> i" and f4: "k = 4 \<longrightarrow> i \<le> 15"
    by (auto simp: k_def i_def continuation_def)
  consider "k = 0" | "1 \<le> k \<and> k \<le> 3" | "k = 4" using k by linarith
  then have "0xDFFF < k * 262144 + i * 4096 + j * 64 + l
             \<and> k * 262144 + i * 4096 + j * 64 + l < 0x110000"
  proof cases
    case 1
    with f0 i j l show ?thesis by simp
  next
    case 2
    with i j l show ?thesis by simp
  next
    case 3
    with f4 i j l show ?thesis by simp
  qed
  then have "scalar_value (k * 262144 + i * 4096 + j * 64 + l)"
    by (simp add: scalar_value_def)
  then show ?thesis by (simp only: k_def i_def j_def l_def)
qed

lemma utf8_decode_scalar:
  "utf8_decode bs = Some t \<Longrightarrow> \<forall>c\<in>set t. scalar_value c"
proof (induction bs arbitrary: t rule: utf8_decode.induct)
  case 1
  then show ?case by simp
next
  case (2 b0)
  then show ?case by (auto split: if_splits intro: scalar_one_byte)
next
  case (3 b0 b1)
  then show ?case
    by (auto split: if_splits intro: scalar_one_byte scalar_two_bytes)
next
  case (4 b0 b1 b2)
  then show ?case
    by (auto split: if_splits intro: scalar_one_byte scalar_two_bytes scalar_three_bytes)
next
  case (5 b0 b1 b2 b3 bs)
  then show ?case
    by (auto split: if_splits
        intro: scalar_one_byte scalar_two_bytes scalar_three_bytes scalar_four_bytes)
qed

lemma utf8_encode_cp_total: "scalar_value c \<Longrightarrow> \<exists>bs. utf8_encode_cp c = Some bs"
  by (simp add: scalar_value_def utf8_encode_cp_def)

lemma utf8_encode_total: "\<forall>c\<in>set t. scalar_value c \<Longrightarrow> \<exists>bs. utf8_encode t = Some bs"
proof (induction t)
  case Nil
  then show ?case by simp
next
  case (Cons c cs)
  then obtain bs where "utf8_encode_cp c = Some bs"
    using utf8_encode_cp_total [of c] by auto
  moreover from Cons obtain bs' where "utf8_encode cs = Some bs'" by auto
  ultimately show ?case by simp
qed

lemma set_universal_newlines: "set (universal_newlines t) \<subseteq> insert 10 (set t)"
  by (induction t rule: universal_newlines.induct) auto

lemma scalar_value_newline: "scalar_value 10" "scalar_value 13"
  by (simp_all add: scalar_value_def)

lemma universal_newlines_scalar:
  assumes "\<forall>c\<in>set t. scalar_value c"
  shows "\<forall>c\<in>set (universal_newlines t). scalar_value c"
  using assms set_universal_newlines [of t] scalar_value_newline(1) by blast

lemma set_write_newlines: "set (write_newlines linesep t) \<subseteq> set linesep \<union> set t"
  by (auto simp: write_newlines_def split: if_splits)

lemma write_newlines_scalar:
  assumes "\<forall>c\<in>set t. scalar_value c"
  shows "\<forall>c\<in>set (write_newlines (os_linesep p) t). scalar_value c"
proof -
  have "\<forall>c\<in>set (os_linesep p). scalar_value c"
    by (cases p) (simp_all add: scalar_value_newline)
  with assms set_write_newlines [of "os_linesep p" t] show ?thesis by blast
qed

lemma text_of_scalar: "\<forall>c\<in>set (text_of s). scalar_value c"
proof
  fix c
  assume "c \<in> set (text_of s)"
  then obtain ch where "c = of_char ch" by (auto simp: text_of_def)
  then have "c < 256" by simp
  then show "scalar_value c" by (simp add: scalar_value_def)
qed

lemma read_text_scalar:
  assumes "read_text f = Some html"
  shows "\<forall>c\<in>set html. scalar_value c"
proof -
  from assms obtain t where t: "utf8_decode (map of_char (file_bytes f)) = Some t"
      and html: "html = universal_newlines t"
    by (auto simp: read_text_def split: if_splits)
  from utf8_decode_scalar [OF t] show ?thesis
    unfolding html by (rule universal_newlines_scalar)
qed

text \<open>
  C6, as the claim states it, fails: a file that holds the marker is not always injected.
  When its bytes are not UTF-8 (here the byte \<open>0xFF\<close> before \<open></body>\<close>) the read raises,
  and when it cannot be opened for writing the write raises; the \<open>except\<close> clause reports
  the failure and the file stays as it was, without the script block.
\<close>

theorem inject_unreadable_marker_counterexample:
  "inject_custom_js Posix
     [''interactive_graph.html'' \<mapsto>
        \<lparr>file_readable = True, file_writable = True, file_bytes = CHR 0xFF # ''</body>''\<rparr>]
     ''interactive_graph.html''
   = ([''interactive_graph.html'' \<mapsto>
        \<lparr>file_readable = True, file_writable = True, file_bytes = CHR 0xFF # ''</body>''\<rparr>],
      InjectFailed)
   \<and> inject_custom_js Posix
     [''interactive_graph.html'' \<mapsto>
        \<lparr>file_readable = True, file_writable = False, file_bytes = ''<body></body>''\<rparr>]
     ''interactive_graph.html''
   = ([''interactive_graph.html'' \<mapsto>
        \<lparr>file_readable = True, file_writable = False, file_bytes = ''<body></body>''\<rparr>],
      InjectFailed)"
  by (simp add: inject_custom_js_def read_text_def write_text_def rfind_def startswith_def
      text_of_def)

text \<open>
  C6, amended. When the output file is missing or cannot be read as UTF-8 text, the
  injector reports the failure and changes no file. When the text it reads has no
  \<open></body>\<close>, it reports that the tag was not found and changes no file. When the text has
  the marker and the file cannot be opened for writing, it reports the failure and changes
  no file. Otherwise it rewrites the file in place: the new bytes are the UTF-8 encoding
  of the text it read, line ends written as text mode writes them, with the script block
  put immediately before the last \<open></body>\<close> of that text.
\<close>

theorem inject_custom_js_on_text_files:
  "(fs output_html = None \<longrightarrow> inject_custom_js p fs output_html = (fs, InjectFailed))
   \<and> (\<forall>f. fs output_html = Some f \<longrightarrow>
        (read_text f = None \<longrightarrow> inject_custom_js p fs output_html = (fs, InjectFailed))
        \<and> (\<forall>html. read_text f = Some html \<longrightarrow>
             (\<not> sublist (text_of ''</body>'') html \<longrightarrow>
                inject_custom_js p fs output_html = (fs, TagNotFound))
             \<and> (sublist (text_of ''</body>'') html \<and> \<not> file_writable f \<longrightarrow>
                inject_custom_js p fs output_html = (fs, InjectFailed))
             \<and> (sublist (text_of ''</body>'') html \<and> file_writable f \<longrightarrow>
                (\<exists>pre post bs.
                   html = pre @ text_of ''</body>'' @ post
                   \<and> (\<forall>pre' post'. html = pre' @ text_of ''</body>'' @ post'
                         \<longrightarrow> length pre' \<le> length pre)
                   \<and> utf8_encode (write_newlines (os_linesep p)
                         (pre @ text_of custom_js @ text_of ''</body>'' @ post)) = Some bs
                   \<and> inject_custom_js p fs output_html =
                       (fs(output_html \<mapsto> f\<lparr>file_bytes := map char_of bs\<rparr>), Injected)))))"
proof (intro conjI allI impI)
  assume "fs output_html = None"
  then show "inject_custom_js p fs output_html = (fs, InjectFailed)"
    by (simp add: inject_custom_js_def)
next
  fix f
  assume "fs output_html = Some f" "read_text f = None"
  then show "inject_custom_js p fs output_html = (fs, InjectFailed)"
    by (simp add: inject_custom_js_def)
next
  fix f html
  assume f: "fs output_html = Some f" and html: "read_text f = Some html"
    and "\<not> sublist (text_of ''</body>'') html"
  then have "rfind html (text_of ''</body>'') = -1" by (simp add: rfind_none_iff)
  with f html show "inject_custom_js p fs output_html = (fs, TagNotFound)"
    by (simp add: inject_custom_js_def)
next
  fix f html
  assume f: "fs output_html = Some f" and html: "read_text f = Some html"
    and found: "sublist (text_of ''</body>'') html \<and> \<not> file_writable f"
  then have "rfind html (text_of ''</body>'') \<noteq> -1" by (simp add: rfind_none_iff)
  moreover from f have "fs(output_html \<mapsto> f) = fs" by (rule map_upd_triv)
  ultimately show "inject_custom_js p fs output_html = (fs, InjectFailed)"
    using f html found by (simp add: inject_custom_js_def write_text_def Let_def)
next
  fix f html
  assume f: "fs output_html = Some f" and html: "read_text f = Some html"
    and found: "sublist (text_of ''</body>'') html \<and> file_writable f"
  from found rfind_last_occurrence [of "text_of ''</body>''" html] obtain pre post
    where split: "html = pre @ text_of ''</body>'' @ post"
      and pos: "rfind html (text_of ''</body>'') = int (length pre)"
      and last: "\<forall>pre' post'. html = pre' @ text_of ''</body>'' @ post'
                   \<longrightarrow> length pre' \<le> length pre"
    by blast
  let ?new = "pre @ text_of custom_js @ text_of ''</body>'' @ post"
  have "\<forall>c\<in>set html. scalar_value c" using html by (rule read_text_scalar)
  then have "\<forall>c\<in>set ?new. scalar_value c"
    using text_of_scalar [of custom_js] unfolding split by auto
  then have "\<forall>c\<in>set (write_newlines (os_linesep p) ?new). scalar_value c"
    by (rule write_newlines_scalar)
  then obtain bs where bs: "utf8_encode (write_newlines (os_linesep p) ?new) = Some bs"
    using utf8_encode_total by blast
  have "take (length pre) html = pre"
    and "drop (length pre) html = text_of ''</body>'' @ post"
    by (simp_all add: split)
  with f html found pos bs
  have "inject_custom_js p fs output_html =
          (fs(output_html \<mapsto> f\<lparr>file_bytes := map char_of bs\<rparr>), Injected)"
    by (simp add: inject_custom_js_def write_text_def Let_def)
  with split last bs
  show "\<exists>pre post bs.
          html = pre @ text_of ''</body>'' @ post
          \<and> (\<forall>pre' post'. html = pre' @ text_of ''</body>'' @ post' \<longrightarrow> length pre' \<le> length pre)
          \<and> utf8_encode (write_newlines (os_linesep p)
                (pre @ text_of custom_js @ text_of ''</body>'' @ post)) = Some bs
          \<and> inject_custom_js p fs output_html =
              (fs(output_html \<mapsto> f\<lparr>file_bytes := map char_of bs\<rparr>), Injected)"
    by blast
qed

theorem inject_custom_js_on_text_files_witness:
  "read_text \<lparr>file_readable = True, file_writable = True,
               file_bytes = ''<html><body>graph</html>''\<rparr>
     = Some (text_of ''<html><body>graph</html>'')
   \<and> \<not> sublist (text_of ''</body>'') (text_of ''<html><body>graph</html>'')
   \<and> inject_custom_js Posix
        [''interactive_graph.html'' \<mapsto>
           \<lparr>file_readable = True, file_writable = True,
            file_bytes = ''<html><body>graph</html>''\<rparr>]
        ''interactive_graph.html''
      = ([''interactive_graph.html'' \<mapsto>
           \<lparr>file_readable = True, file_writable = True,
            file_bytes = ''<html><body>graph</html>''\<rparr>],
         TagNotFound)
   \<and> read_text \<lparr>file_readable = True, file_writable = True,
                 file_bytes = ''<body>graph</body></html>''\<rparr>
     = Some (text_of ''<body>graph</body></html>'')
   \<and> sublist (text_of ''</body>'') (text_of ''<body>graph</body></html>'')
   \<and> (\<exists>pre post bs.
          text_of ''<body>graph</body></html>'' = pre @ text_of ''</body>'' @ post
          \<and> utf8_encode (write_newlines (os_linesep Posix)
                (pre @ text_of custom_js @ text_of ''</body>'' @ post)) = Some bs
          \<and> inject_custom_js Posix
               [''interactive_graph.html'' \<mapsto>
                  \<lparr>file_readable = True, file_writable = True,
                   file_bytes = ''<body>graph</body></html>''\<rparr>]
               ''interactive_graph.html''
             = ([''interactive_graph.html'' \<mapsto>
                  \<lparr>file_readable = True, file_writable = True,
                   file_bytes = map char_of bs\<rparr>],
                Injected))"
proof -
  let ?f1 = "\<lparr>file_readable = True, file_writable = True,
              file_bytes = ''<html><body>graph</html>''\<rparr>"
  let ?f2 = "\<lparr>file_readable = True, file_writable = True,
              file_bytes = ''<body>graph</body></html>''\<rparr>"
  have r1: "read_text ?f1 = Some (text_of ''<html><body>graph</html>'')"
    by (simp add: read_text_def text_of_def)
  have r2: "read_text ?f2 = Some (text_of ''<body>graph</body></html>'')"
    by (simp add: read_text_def text_of_def)
  have absent: "\<not> sublist (text_of ''</body>'') (text_of ''<html><body>graph</html>'')"
    unfolding rfind_none_iff [symmetric] by (simp add: rfind_def startswith_def text_of_def)
  have "text_of ''<body>graph</body></html>''
          = text_of ''<body>graph'' @ text_of ''</body>'' @ text_of ''</html>''"
    by (simp add: text_of_def)
  then have present: "sublist (text_of ''</body>'') (text_of ''<body>graph</body></html>'')"
    unfolding sublist_def by blast
  from r1 absent
    inject_custom_js_on_text_files [of "[''interactive_graph.html'' \<mapsto> ?f1]"
      "''interactive_graph.html''" Posix]
  have first: "inject_custom_js Posix [''interactive_graph.html'' \<mapsto> ?f1]
                 ''interactive_graph.html''
               = ([''interactive_graph.html'' \<mapsto> ?f1], TagNotFound)"
    by simp
  from r2 present
    inject_custom_js_on_text_files [of "[''interactive_graph.html'' \<mapsto> ?f2]"
      "''interactive_graph.html''" Posix]
  have second: "\<exists>pre post bs.
          text_of ''<body>graph</body></html>'' = pre @ text_of ''</body>'' @ post
          \<and> utf8_encode (write_newlines (os_linesep Posix)
                (pre @ text_of custom_js @ text_of ''</body>'' @ post)) = Some bs
          \<and> inject_custom_js Posix [''interactive_graph.html'' \<mapsto> ?f2]
               ''interactive_graph.html''
             = ([''interactive_graph.html'' \<mapsto>
                  \<lparr>file_readable = True, file_writable = True,
                   file_bytes = map char_of bs\<rparr>],
                Injected)"
    by (auto simp del: os_linesep.simps)
  from r1 absent first r2 present second show ?thesis by blast
qed


section \<open>Claims about the cluster map\<close>

lemma map_of_dict_set: "map_of (dict_set d k v) = (map_of d)(k \<mapsto> v)"
  by (induction d k v rule: dict_set.induct) auto

lemma map_of_assign_nodes:
  "map_of (assign_nodes nodes l c) k =
     (if k \<in> node_key ` set nodes then Some l else map_of c k)"
  unfolding assign_nodes_def
  by (induction nodes arbitrary: c) (auto simp: map_of_dict_set)

lemma find_snoc:
  "find P (xs @ [y]) = (case find P xs of Some x \<Rightarrow> Some x | None \<Rightarrow> if P y then Some y else None)"
  by (induction xs) auto

lemma scan_subgraphs_lookup:
  assumes "scan_subgraphs sgs c = Inr c'"
  shows \<open>map_of c' k =
     (case find (\<lambda>sg. startswith (py_strip ''"'' (get_name sg)) ''cluster_''
                      \<and> k \<in> node_key ` set (get_nodes sg)) (rev sgs) of
        None \<Rightarrow> map_of c k
      | Some sg \<Rightarrow> (case cluster_label_of (py_strip ''"'' (get_name sg)) (get_label sg) of
                     Inr l \<Rightarrow> Some l
                   | Inl e \<Rightarrow> None))\<close>
  using assms
proof (induction sgs arbitrary: c)
  case Nil
  then show ?case by simp
next
  case (Cons sg rest)
  show ?case
  proof (cases \<open>startswith (py_strip ''"'' (get_name sg)) ''cluster_''\<close>)
    case False
    with Cons.prems have "scan_subgraphs rest c = Inr c'" by simp
    from Cons.IH [OF this] False show ?thesis
      by (simp add: find_snoc split: option.splits)
  next
    case True
    with Cons.prems obtain l
      where l: \<open>cluster_label_of (py_strip ''"'' (get_name sg)) (get_label sg) = Inr l\<close>
        and rest: "scan_subgraphs rest (assign_nodes (get_nodes sg) l c) = Inr c'"
      by (auto split: sum.splits)
    from Cons.IH [OF rest] True l show ?thesis
      by (simp add: find_snoc map_of_assign_nodes split: option.splits)
  qed
qed

lemma scan_subgraphs_ignores_nesting:
  "scan_subgraphs (map (\<lambda>sg. Graph (get_name sg) (get_label sg) (get_nodes sg) []) sgs) c =
   scan_subgraphs sgs c"
  by (induction sgs arbitrary: c) (simp_all add: Let_def split: sum.splits)

text \<open>
  C3, as the claim states it, fails: only the subgraphs declared directly in the graph are
  scanned, and only the nodes declared directly in them are mapped. A node of a cluster
  nested in another cluster gets no entry, whichever label the claim means for it.
\<close>

theorem nested_cluster_counterexample:
  \<open>parse_dot_file_clusters
     (Graph ''G'' PyNone []
        [Graph ''cluster_a'' (PyStr ''"A"'') [''m'']
           [Graph ''cluster_b'' (PyStr ''"B"'') [''n''] []]])
     = Inr [(''m'', ''A'')]
   \<and> spec_cluster_map
     (Graph ''G'' PyNone []
        [Graph ''cluster_a'' (PyStr ''"A"'') [''m'']
           [Graph ''cluster_b'' (PyStr ''"B"'') [''n''] []]])
     = Inr [(''m'', ''A''), (''n'', ''B'')]\<close>
  by (simp add: parse_dot_file_clusters_def spec_cluster_map_def cluster_label_of_def
      assign_nodes_def node_key_def py_strip_def startswith_def endswith_def)

text \<open>
  C3, amended. The cluster map is built from the subgraphs declared directly in the graph:
  what is nested inside them plays no part. Of these it keeps the ones whose name, quotes
  stripped, starts with \<open>cluster_\<close>, and it maps the key of every node declared directly
  in such a group to the group's label: the declared label with its quotes stripped, or
  the group's name when the group has no label. A declared label reaches the script as a
  non-empty string (the DOT text \<open>label=""\<close> as two quote characters), so a label declared
  empty gives the empty cluster name and not the group's name. A node declared in several
  such groups gets the label of the last one.
\<close>

theorem cluster_map_from_top_level_groups:
  assumes "parse_dot_file_clusters g = Inr clusters"
  shows \<open>parse_dot_file_clusters
           (Graph (get_name g) (get_label g) (get_nodes g)
              (map (\<lambda>sg. Graph (get_name sg) (get_label sg) (get_nodes sg) []) (get_subgraphs g)))
           = Inr clusters
         \<and> map_of clusters k =
             (case find (\<lambda>sg. startswith (py_strip ''"'' (get_name sg)) ''cluster_''
                              \<and> k \<in> node_key ` set (get_nodes sg)) (rev (get_subgraphs g)) of
                None \<Rightarrow> None
              | Some sg \<Rightarrow> (case cluster_label_of (py_strip ''"'' (get_name sg)) (get_label sg) of
                             Inr l \<Rightarrow> Some l
                           | Inl e \<Rightarrow> None))
         \<and> cluster_label_of name PyNone = Inr name
         \<and> (s \<noteq> '''' \<longrightarrow> cluster_label_of name (PyStr s) = Inr (py_strip ''"'' s))
         \<and> (s \<noteq> '''' \<longrightarrow> cluster_label_of name (PyList (PyStr s # rest)) = Inr (py_strip ''"'' s))
         \<and> cluster_label_of name (PyStr ''""'') = Inr ''''\<close>
proof -
  from assms have scan: "scan_subgraphs (get_subgraphs g) [] = Inr clusters"
    by (simp add: parse_dot_file_clusters_def)
  have flat: \<open>parse_dot_file_clusters
           (Graph (get_name g) (get_label g) (get_nodes g)
              (map (\<lambda>sg. Graph (get_name sg) (get_label sg) (get_nodes sg) []) (get_subgraphs g)))
           = Inr clusters\<close>
    using scan by (simp add: parse_dot_file_clusters_def scan_subgraphs_ignores_nesting)
  have lookup: \<open>map_of clusters k =
             (case find (\<lambda>sg. startswith (py_strip ''"'' (get_name sg)) ''cluster_''
                              \<and> k \<in> node_key ` set (get_nodes sg)) (rev (get_subgraphs g)) of
                None \<Rightarrow> None
              | Some sg \<Rightarrow> (case cluster_label_of (py_strip ''"'' (get_name sg)) (get_label sg) of
                             Inr l \<Rightarrow> Some l
                           | Inl e \<Rightarrow> None))\<close>
    using scan_subgraphs_lookup [OF scan, of k] by (simp cong: option.case_cong)
  have labels: \<open>cluster_label_of name PyNone = Inr name\<close>
    \<open>s \<noteq> '''' \<longrightarrow> cluster_label_of name (PyStr s) = Inr (py_strip ''"'' s)\<close>
    \<open>s \<noteq> '''' \<longrightarrow> cluster_label_of name (PyList (PyStr s # rest)) = Inr (py_strip ''"'' s)\<close>
    \<open>cluster_label_of name (PyStr ''""'') = Inr ''''\<close>
    by (simp_all add: cluster_label_of_def py_strip_def)
  from flat lookup labels show ?thesis by blast
qed

theorem cluster_map_from_top_level_groups_witness:
  \<open>parse_dot_file_clusters
     (Graph ''G'' PyNone []
        [Graph ''cluster_a'' (PyStr ''"A"'') [''m'']
           [Graph ''cluster_b'' (PyStr ''"B"'') [''n''] []]])
     = Inr [(''m'', ''A'')]
   \<and> parse_dot_file_clusters
     (Graph ''G'' PyNone [] [Graph ''cluster_a'' (PyStr ''"A"'') [''m''] []])
     = Inr [(''m'', ''A'')]
   \<and> ''"A"'' \<noteq> ''''
   \<and> cluster_label_of ''cluster_a'' (PyStr ''"A"'') = Inr ''A''\<close>
proof -
  have run: \<open>parse_dot_file_clusters
     (Graph ''G'' PyNone []
        [Graph ''cluster_a'' (PyStr ''"A"'') [''m'']
           [Graph ''cluster_b'' (PyStr ''"B"'') [''n''] []]])
     = Inr [(''m'', ''A'')]\<close>
    by (simp add: parse_dot_file_clusters_def cluster_label_of_def
        assign_nodes_def node_key_def py_strip_def startswith_def endswith_def)
  from cluster_map_from_top_level_groups [OF run, of "''m''" "''cluster_a''" \<open>''"A"''\<close> "[]"] run
  show ?thesis by (simp add: py_strip_def)
qed

section \<open>Claims about the cluster colours\<close>

lemma set_order_remdups: "set_order remdups"
  by (simp add: set_order_def)

lemma set_order_rev_remdups: "set_order (rev \<circ> remdups)"
  by (simp add: set_order_def)

lemma hex_digits_3735650: "hex_digits 3735650 = ''390062''"
  by (simp add: hex_digits.simps hex_digit_def)

lemma hex_digits_839221: "hex_digits 839221 = ''cce35''"
  by (simp add: hex_digits.simps hex_digit_def)

lemma seed42_colors:
  "generate_unique_colors (\<lambda>i. seed42_draws ! i) 2 = [''#390062'', ''#0cce35'']"
  by (simp add: generate_unique_colors_def seed42_draws_def format_06x_def
      hex_digits_3735650 hex_digits_839221 upt_rec)

text \<open>
  C2. The list of colours is the same in every run, but which label gets which colour
  follows the order in which the set of labels is iterated, and the runtime is free to
  change that order from one run to the next (string hashes are randomised per process).
  For the cluster map \<open>{a: A, b: B}\<close> two iteration orders of the same set \<open>{A, B}\<close> give
  two different mappings: \<open>A\<close> is \<open>#390062\<close> in one run and \<open>#0cce35\<close> in the other.
\<close>

theorem group_colors_follow_set_iteration_order:
  "set_order remdups \<and> set_order (rev \<circ> remdups)
   \<and> generate_group_styles (\<lambda>i. seed42_draws ! i) remdups [(''a'', ''A''), (''b'', ''B'')] =
       [(''A'', \<lparr>color = \<lparr>background = ''#390062'', border = ''#2B7CE9''\<rparr>\<rparr>),
        (''B'', \<lparr>color = \<lparr>background = ''#0cce35'', border = ''#2B7CE9''\<rparr>\<rparr>)]
   \<and> generate_group_styles (\<lambda>i. seed42_draws ! i) (rev \<circ> remdups) [(''a'', ''A''), (''b'', ''B'')] =
       [(''B'', \<lparr>color = \<lparr>background = ''#390062'', border = ''#2B7CE9''\<rparr>\<rparr>),
        (''A'', \<lparr>color = \<lparr>background = ''#0cce35'', border = ''#2B7CE9''\<rparr>\<rparr>)]"
proof -
  have n: "length (remdups (map snd [(''a'', ''A''), (''b'', ''B'')])) = 2" by simp
  have "generate_group_styles (\<lambda>i. seed42_draws ! i) remdups [(''a'', ''A''), (''b'', ''B'')] =
       [(''A'', \<lparr>color = \<lparr>background = ''#390062'', border = ''#2B7CE9''\<rparr>\<rparr>),
        (''B'', \<lparr>color = \<lparr>background = ''#0cce35'', border = ''#2B7CE9''\<rparr>\<rparr>)]"
    unfolding generate_group_styles_def Let_def n seed42_colors by simp
  moreover
  have "generate_group_styles (\<lambda>i. seed42_draws ! i) (rev \<circ> remdups) [(''a'', ''A''), (''b'', ''B'')] =
       [(''B'', \<lparr>color = \<lparr>background = ''#390062'', border = ''#2B7CE9''\<rparr>\<rparr>),
        (''A'', \<lparr>color = \<lparr>background = ''#0cce35'', border = ''#2B7CE9''\<rparr>\<rparr>)]"
    unfolding generate_group_styles_def Let_def n seed42_colors by simp
  ultimately show ?thesis
    using set_order_remdups set_order_rev_remdups by blast
qed

end
